theory Spec2Isabelle
  imports Main "HOL-Library.AList"
begin

section \<open>Table-level lineage resolution (app.py)\<close>

text \<open>
  The program parses one SQL statement with an external parser, walks the resulting
  syntax tree, accumulates a directed graph in an insertion-ordered graph container and
  formats the graph as a node list and an edge list. The parser and the graph container
  are libraries; the tree and the container are modelled here with exactly the
  operations the program calls on them.
\<close>

subsection \<open>Exceptions\<close>

text \<open>
  Everything inside the \<^verbatim>\<open>try\<close> block that can raise: the parser on malformed text,
  and \<^verbatim>\<open>table.this.sql()\<close> on a table node that carries no \<^verbatim>\<open>this\<close> argument.
\<close>

datatype py_exception = ParseError | AttributeError

subsection \<open>The syntax tree\<close>

text \<open>
  Only the node classes the program tests with \<^verbatim>\<open>find\<close> and \<^verbatim>\<open>find_all\<close> are
  distinguished. A CTE node carries what \<^verbatim>\<open>cte.alias\<close> returns; a table node carries
  what \<^verbatim>\<open>table.this.sql()\<close> returns, or \<open>None\<close> when \<^verbatim>\<open>table.this\<close> is absent.
  The children are the argument expressions of the node, in argument order.
\<close>

datatype node_kind = CTE string | Create | Insert | Select | Table "string option" | Other

datatype expression = Expression node_kind "expression list"

fun kind :: "expression \<Rightarrow> node_kind" where
  "kind (Expression k cs) = k"

fun expr_size :: "expression \<Rightarrow> nat" where
  "expr_size (Expression k cs) = Suc (sum_list (map expr_size cs))"

text \<open>
  \<^verbatim>\<open>walk\<close> is breadth-first: a queue that starts with the node itself; each node taken
  from the front is yielded and its children are appended at the back.
\<close>

function bfs :: "expression list \<Rightarrow> expression list" where
  "bfs [] = []"
| "bfs (Expression k cs # queue) = Expression k cs # bfs (queue @ cs)"
  by pat_completeness auto
termination
  by (relation "measure (\<lambda>queue. sum_list (map expr_size queue))") auto

definition walk :: "expression \<Rightarrow> expression list" where
  "walk e = bfs [e]"

definition find_all :: "(node_kind \<Rightarrow> bool) \<Rightarrow> expression \<Rightarrow> expression list" where
  "find_all isinstance e = filter (\<lambda>x. isinstance (kind x)) (walk e)"

definition find_first :: "(node_kind \<Rightarrow> bool) \<Rightarrow> expression \<Rightarrow> expression option" where
  "find_first isinstance e = (case find_all isinstance e of [] \<Rightarrow> None | x # xs \<Rightarrow> Some x)"

fun is_CTE :: "node_kind \<Rightarrow> bool" where
  "is_CTE (CTE a) = True"
| "is_CTE k = False"

fun is_Create_or_Insert :: "node_kind \<Rightarrow> bool" where
  "is_Create_or_Insert Create = True"
| "is_Create_or_Insert Insert = True"
| "is_Create_or_Insert k = False"

fun is_Table :: "node_kind \<Rightarrow> bool" where
  "is_Table (Table n) = True"
| "is_Table k = False"

fun is_Select :: "node_kind \<Rightarrow> bool" where
  "is_Select Select = True"
| "is_Select k = False"

fun cte_alias :: "expression \<Rightarrow> string" where
  "cte_alias (Expression (CTE a) cs) = a"
| "cte_alias e = []"

fun this_sql :: "expression \<Rightarrow> py_exception + string" where
  "this_sql (Expression (Table (Some n)) cs) = Inr n"
| "this_sql e = Inl AttributeError"

subsection \<open>The directed graph container\<close>

text \<open>
  Three insertion-ordered dictionaries, as in the library: node \<open>\<mapsto>\<close> attribute
  dictionary, node \<open>\<mapsto>\<close> successors, node \<open>\<mapsto>\<close> predecessors. A node without an
  adjacency entry has the empty list.
\<close>

type_synonym attr_dict = "string \<rightharpoonup> string"

record digraph =
  node_dict :: "(string \<times> attr_dict) list"
  succ_dict :: "string \<Rightarrow> string list"
  pred_dict :: "string \<Rightarrow> string list"

definition DiGraph :: digraph where
  "DiGraph = \<lparr>node_dict = [], succ_dict = (\<lambda>n. []), pred_dict = (\<lambda>n. [])\<rparr>"

definition G_nodes :: "digraph \<Rightarrow> string list" where
  "G_nodes G = map fst (node_dict G)"

definition node_attrs :: "digraph \<Rightarrow> string \<Rightarrow> attr_dict" where
  "node_attrs G n = (case map_of (node_dict G) n of None \<Rightarrow> Map.empty | Some d \<Rightarrow> d)"

definition add_node :: "string \<Rightarrow> attr_dict \<Rightarrow> digraph \<Rightarrow> digraph" where
  "add_node n attrs G =
     G\<lparr>node_dict := AList.update n (node_attrs G n ++ attrs) (node_dict G)\<rparr>"

definition add_key :: "string \<Rightarrow> string list \<Rightarrow> string list" where
  "add_key k ks = (if k \<in> set ks then ks else ks @ [k])"

definition add_edge :: "string \<Rightarrow> string \<Rightarrow> digraph \<Rightarrow> digraph" where
  "add_edge u v G =
     (let G1 = (if u \<in> set (G_nodes G) then G else add_node u Map.empty G);
          G2 = (if v \<in> set (G_nodes G1) then G1 else add_node v Map.empty G1)
      in G2\<lparr>succ_dict := (succ_dict G2)(u := add_key v (succ_dict G2 u)),
             pred_dict := (pred_dict G2)(v := add_key u (pred_dict G2 v))\<rparr>)"

definition in_degree :: "digraph \<Rightarrow> string \<Rightarrow> nat" where
  "in_degree G n = length (pred_dict G n)"

definition G_edges :: "digraph \<Rightarrow> (string \<times> string) list" where
  "G_edges G = concat (map (\<lambda>u. map (Pair u) (succ_dict G u)) (G_nodes G))"

subsection \<open>The result\<close>

record vis_node =
  node_id :: string
  node_label :: string
  node_color :: string

record vis_edge =
  edge_from :: string
  edge_to :: string

record lineage =
  nodes :: "vis_node list"
  edges :: "vis_edge list"

subsection \<open>get_production_lineage\<close>

text \<open>Step 2: a dictionary comprehension, so a repeated alias keeps its first position
  and takes the last CTE node.\<close>

definition cte_registry :: "expression \<Rightarrow> (string \<times> expression) list" where
  "cte_registry parsed =
     foldl (\<lambda>d cte. AList.update (cte_alias cte) cte d) [] (find_all is_CTE parsed)"

text \<open>Step 3: the loop over the write statements, with \<open>target_name\<close> as the loop state.\<close>

fun target_loop :: "expression list \<Rightarrow> string option \<Rightarrow> py_exception + string option" where
  "target_loop [] target_name = Inr target_name"
| "target_loop (statement # rest) target_name =
     (case find_first is_Table statement of
        None \<Rightarrow> target_loop rest target_name
      | Some table \<Rightarrow>
          (case this_sql table of
             Inl e \<Rightarrow> Inl e
           | Inr n \<Rightarrow> target_loop rest (Some n)))"

definition resolve_target :: "expression \<Rightarrow> py_exception + string option" where
  "resolve_target parsed = target_loop (find_all is_Create_or_Insert parsed) None"

text \<open>Step 4: the helper; the graph it closes over is passed and returned.\<close>

fun trace_tables :: "expression list \<Rightarrow> string \<Rightarrow> digraph \<Rightarrow> py_exception + digraph" where
  "trace_tables [] node_name G = Inr G"
| "trace_tables (table # rest) node_name G =
     (case this_sql table of
        Inl e \<Rightarrow> Inl e
      | Inr source \<Rightarrow>
          trace_tables rest node_name
            (if source \<noteq> node_name then add_edge source node_name G else G))"

definition trace_dependencies :: "expression \<Rightarrow> string \<Rightarrow> digraph \<Rightarrow> py_exception + digraph" where
  "trace_dependencies expression node_name G =
     trace_tables (find_all is_Table expression) node_name G"

text \<open>Step 5: the loop over the registry.\<close>

definition cte_attrs :: "string \<Rightarrow> attr_dict" where
  "cte_attrs a = [''label'' \<mapsto> ''CTE: '' @ a, ''type'' \<mapsto> ''CTE'', ''color'' \<mapsto> ''#4da6ff'']"

definition target_attrs :: "string \<Rightarrow> attr_dict" where
  "target_attrs t = [''label'' \<mapsto> t, ''type'' \<mapsto> ''TARGET'', ''color'' \<mapsto> ''#4dff88'']"

fun build_ctes :: "(string \<times> expression) list \<Rightarrow> digraph \<Rightarrow> py_exception + digraph" where
  "build_ctes [] G = Inr G"
| "build_ctes ((a, expression) # rest) G =
     (case trace_dependencies expression a (add_node a (cte_attrs a) G) of
        Inl e \<Rightarrow> Inl e
      | Inr G' \<Rightarrow> build_ctes rest G')"

text \<open>Step 6. \<^verbatim>\<open>if target_name:\<close> is false for \<^verbatim>\<open>None\<close> and for the empty string.\<close>

definition build_target :: "expression \<Rightarrow> string option \<Rightarrow> digraph \<Rightarrow> py_exception + digraph" where
  "build_target parsed target_name G =
     (case target_name of
        None \<Rightarrow> Inr G
      | Some t \<Rightarrow>
          if t = [] then Inr G
          else (let G1 = add_node t (target_attrs t) G in
                case find_first is_Select parsed of
                  None \<Rightarrow> Inr G1
                | Some main_select \<Rightarrow> trace_dependencies main_select t G1))"

text \<open>Steps 5 and 6 together, from the empty graph: the graph as it stands before
  formatting.\<close>

definition assemble :: "expression \<Rightarrow> string option \<Rightarrow> py_exception + digraph" where
  "assemble parsed target_name =
     (case build_ctes (cte_registry parsed) DiGraph of
        Inl e \<Rightarrow> Inl e
      | Inr G \<Rightarrow> build_target parsed target_name G)"

text \<open>Step 7.\<close>

definition get_attr :: "attr_dict \<Rightarrow> string \<Rightarrow> string \<Rightarrow> string" where
  "get_attr d k dflt = (case d k of None \<Rightarrow> dflt | Some v \<Rightarrow> v)"

definition format_node :: "digraph \<Rightarrow> string option \<Rightarrow> string \<Rightarrow> vis_node" where
  "format_node G target_name n =
     (let is_raw = (in_degree G n = 0 \<and> Some n \<noteq> target_name) in
      \<lparr>node_id = n,
       node_label = (if is_raw then ''RAW: '' @ n else get_attr (node_attrs G n) ''label'' n),
       node_color = (if is_raw then ''#ff4d4d'' else get_attr (node_attrs G n) ''color'' ''#4da6ff'')\<rparr>)"

definition format_edge :: "string \<times> string \<Rightarrow> vis_edge" where
  "format_edge e = \<lparr>edge_from = fst e, edge_to = snd e\<rparr>"

definition format_graph :: "digraph \<Rightarrow> string option \<Rightarrow> lineage" where
  "format_graph G target_name =
     \<lparr>nodes = map (format_node G target_name) (G_nodes G),
      edges = map format_edge (G_edges G)\<rparr>"

text \<open>The body of the \<^verbatim>\<open>try\<close> block, and the function with its \<^verbatim>\<open>except\<close> clause.
  The parser is a parameter.\<close>

type_synonym parser = "string \<Rightarrow> py_exception + expression"

definition lineage_try :: "parser \<Rightarrow> string \<Rightarrow> py_exception + lineage" where
  "lineage_try parse_one sql =
     (case parse_one sql of
        Inl e \<Rightarrow> Inl e
      | Inr parsed \<Rightarrow>
          (case resolve_target parsed of
             Inl e \<Rightarrow> Inl e
           | Inr target_name \<Rightarrow>
               (case assemble parsed target_name of
                  Inl e \<Rightarrow> Inl e
                | Inr G \<Rightarrow> Inr (format_graph G target_name))))"

definition get_production_lineage :: "parser \<Rightarrow> string \<Rightarrow> lineage" where
  "get_production_lineage parse_one sql =
     (case lineage_try parse_one sql of
        Inl e \<Rightarrow> \<lparr>nodes = [], edges = []\<rparr>
      | Inr result \<Rightarrow> result)"

subsection \<open>Notions used in the statements\<close>

text \<open>The edges of a graph as a relation, read from the successor and from the
  predecessor dictionary.\<close>

definition edge_rel :: "digraph \<Rightarrow> (string \<times> string) set" where
  "edge_rel G = {(u, v). v \<in> set (succ_dict G u)}"

definition pred_rel :: "digraph \<Rightarrow> (string \<times> string) set" where
  "pred_rel G = {(u, v). u \<in> set (pred_dict G v)}"

text \<open>What the container maintains: node keys are unique, adjacency keys are unique, and
  both endpoints of an edge are nodes.\<close>

definition wf_graph :: "digraph \<Rightarrow> bool" where
  "wf_graph G \<longleftrightarrow>
     distinct (G_nodes G) \<and> (\<forall>u. distinct (succ_dict G u)) \<and>
     (\<forall>u v. v \<in> set (succ_dict G u) \<longrightarrow> u \<in> set (G_nodes G) \<and> v \<in> set (G_nodes G))"

text \<open>The names a list of table nodes yields as sources for an owning node.\<close>

definition table_sources :: "expression list \<Rightarrow> string \<Rightarrow> string set" where
  "table_sources ts n = {s. \<exists>tb \<in> set ts. this_sql tb = Inr s \<and> s \<noteq> n}"

text \<open>The edges one traced scope contributes, and the edges of all the scopes the
  program traces: every registry entry, and the first select when the target name is
  set and not empty.\<close>

definition scope_edges :: "expression \<Rightarrow> string \<Rightarrow> (string \<times> string) set" where
  "scope_edges e n = (\<lambda>s. (s, n)) ` table_sources (find_all is_Table e) n"

definition cte_edges :: "(string \<times> expression) list \<Rightarrow> (string \<times> string) set" where
  "cte_edges reg = (\<Union>(a, e) \<in> set reg. scope_edges e a)"

definition target_edges :: "expression \<Rightarrow> string option \<Rightarrow> (string \<times> string) set" where
  "target_edges parsed target_name =
     (case target_name of
        None \<Rightarrow> {}
      | Some t \<Rightarrow>
          if t = [] then {}
          else (case find_first is_Select parsed of
                  None \<Rightarrow> {}
                | Some main_select \<Rightarrow> scope_edges main_select t))"

subsection \<open>Example statements\<close>

text \<open>
  The trees the external parser builds for the statements used as examples below, as far
  as the program looks at them. Each node lists its argument expressions in argument
  order; for a statement that starts with \<^verbatim>\<open>WITH\<close> the parser attaches the \<^verbatim>\<open>With\<close>
  node to the statement as its last argument. Identifiers, stars, literals, \<^verbatim>\<open>From\<close>,
  \<^verbatim>\<open>Join\<close>, \<^verbatim>\<open>Where\<close>, \<^verbatim>\<open>With\<close> and the like are \<open>Other\<close>.
\<close>

definition leaf :: expression where
  "leaf = Expression Other []"

definition table :: "string \<Rightarrow> expression" where
  "table n = Expression (Table (Some n)) [leaf]"

definition select_from :: "string \<Rightarrow> expression" where
  "select_from n = Expression Select [leaf, Expression Other [table n]]"

definition cte :: "string \<Rightarrow> expression \<Rightarrow> expression" where
  "cte a body = Expression (CTE a) [body, Expression Other [leaf]]"

definition insert_with :: "string \<Rightarrow> expression \<Rightarrow> expression list \<Rightarrow> expression" where
  "insert_with t body ctes = Expression Insert [table t, body, Expression Other ctes]"

text \<open>\<^verbatim>\<open>WITH filtered AS (SELECT * FROM orders WHERE amount > 0) INSERT INTO report SELECT * FROM filtered\<close>\<close>

definition scenario_sql :: string where
  "scenario_sql =
     ''WITH filtered AS (SELECT * FROM orders WHERE amount > 0) INSERT INTO report SELECT * FROM filtered''"

definition scenario_ast :: expression where
  "scenario_ast =
     insert_with ''report'' (select_from ''filtered'')
       [cte ''filtered''
          (Expression Select
             [leaf, Expression Other [table ''orders''],
              Expression Other [Expression Other [Expression Other [leaf], leaf]]])]"

text \<open>\<^verbatim>\<open>WITH c AS (SELECT 1) INSERT INTO t SELECT * FROM c\<close>\<close>

definition constant_cte_sql :: string where
  "constant_cte_sql = ''WITH c AS (SELECT 1) INSERT INTO t SELECT * FROM c''"

definition constant_cte_ast :: expression where
  "constant_cte_ast =
     insert_with ''t'' (select_from ''c'') [cte ''c'' (Expression Select [leaf])]"

text \<open>\<^verbatim>\<open>WITH a AS (SELECT * FROM a) INSERT INTO t SELECT * FROM a\<close>\<close>

definition self_reference_sql :: string where
  "self_reference_sql = ''WITH a AS (SELECT * FROM a) INSERT INTO t SELECT * FROM a''"

definition self_reference_ast :: expression where
  "self_reference_ast = insert_with ''t'' (select_from ''a'') [cte ''a'' (select_from ''a'')]"

text \<open>\<^verbatim>\<open>WITH t AS (SELECT * FROM src) INSERT INTO t SELECT * FROM t\<close>\<close>

definition alias_is_target_sql :: string where
  "alias_is_target_sql = ''WITH t AS (SELECT * FROM src) INSERT INTO t SELECT * FROM t''"

definition alias_is_target_ast :: expression where
  "alias_is_target_ast = insert_with ''t'' (select_from ''t'') [cte ''t'' (select_from ''src'')]"

text \<open>\<^verbatim>\<open>INSERT INTO t VALUES (1)\<close>: a write statement without any select.\<close>

definition values_sql :: string where
  "values_sql = ''INSERT INTO t VALUES (1)''"

definition values_ast :: expression where
  "values_ast = Expression Insert [table ''t'', Expression Other [Expression Other [leaf]]]"

text \<open>\<^verbatim>\<open>INSERT INTO t SELECT * FROM src x JOIN src y ON x.id = y.id\<close>: one table read
  twice in the same query body.\<close>

definition self_join_sql :: string where
  "self_join_sql = ''INSERT INTO t SELECT * FROM src x JOIN src y ON x.id = y.id''"

definition self_join_ast :: expression where
  "self_join_ast =
     Expression Insert
       [table ''t'',
        Expression Select
          [leaf, Expression Other [table ''src''], Expression Other [table ''src'', leaf]]]"

text \<open>\<^verbatim>\<open>INSERT INTO t SELECT * FROM a UNION ALL SELECT * FROM b\<close>: the query body is a
  set operation over two selects.\<close>

definition union_sql :: string where
  "union_sql = ''INSERT INTO t SELECT * FROM a UNION ALL SELECT * FROM b''"

definition union_body :: expression where
  "union_body = Expression Other [select_from ''a'', select_from ''b'']"

definition union_ast :: expression where
  "union_ast = Expression Insert [table ''t'', union_body]"

text \<open>\<^verbatim>\<open>WITH c AS (SELECT * FROM a), c AS (SELECT * FROM b) INSERT INTO t SELECT * FROM c\<close>:
  the alias \<open>c\<close> is declared twice.\<close>

definition duplicate_alias_sql :: string where
  "duplicate_alias_sql =
     ''WITH c AS (SELECT * FROM a), c AS (SELECT * FROM b) INSERT INTO t SELECT * FROM c''"

definition duplicate_alias_ast :: expression where
  "duplicate_alias_ast =
     insert_with ''t'' (select_from ''c'')
       [cte ''c'' (select_from ''a''), cte ''c'' (select_from ''b'')]"

text \<open>Three further trees: one with two write statements, one inside the other; one
  whose select reads from a table node that has no \<^verbatim>\<open>this\<close>; and one without any
  select, whose CTE body holds a table node directly.\<close>

definition inner_write :: expression where
  "inner_write = Expression Insert [table ''final'', select_from ''src'']"

definition outer_write :: expression where
  "outer_write = Expression Create [table ''staging'', inner_write]"

definition nameless_table_ast :: expression where
  "nameless_table_ast =
     Expression Insert
       [table ''t'',
        Expression Select [leaf, Expression Other [Expression (Table None) [leaf]]]]"

definition selectless_ast :: expression where
  "selectless_ast =
     Expression Insert
       [table ''t'', Expression Other [Expression Other [leaf]],
        Expression Other [cte ''c'' (Expression Other [table ''x''])]]"

text \<open>A parser that knows the statements above, returns the three further trees for
  three texts that stand for their statements, and rejects every other text.\<close>

definition example_parser :: parser where
  "example_parser sql =
     (if sql = scenario_sql then Inr scenario_ast
      else if sql = constant_cte_sql then Inr constant_cte_ast
      else if sql = self_reference_sql then Inr self_reference_ast
      else if sql = alias_is_target_sql then Inr alias_is_target_ast
      else if sql = values_sql then Inr values_ast
      else if sql = self_join_sql then Inr self_join_ast
      else if sql = union_sql then Inr union_ast
      else if sql = duplicate_alias_sql then Inr duplicate_alias_ast
      else if sql = ''two writes'' then Inr outer_write
      else if sql = ''nameless table'' then Inr nameless_table_ast
      else if sql = ''no select'' then Inr selectless_ast
      else Inl ParseError)"

section \<open>Properties of the graph container\<close>


lemma G_nodes_add_node:
  "G_nodes (add_node n a G) = (if n \<in> set (G_nodes G) then G_nodes G else G_nodes G @ [n])"
  by (simp add: add_node_def G_nodes_def update_keys)

lemma succ_dict_add_node: "succ_dict (add_node n a G) = succ_dict G"
  by (simp add: add_node_def)

lemma pred_dict_add_node: "pred_dict (add_node n a G) = pred_dict G"
  by (simp add: add_node_def)

lemma node_attrs_add_node:
  "node_attrs (add_node n a G) x = (if x = n then node_attrs G n ++ a else node_attrs G x)"
  by (simp add: add_node_def node_attrs_def update_conv')

lemma G_nodes_adjacency_update:
  "G_nodes (H\<lparr>succ_dict := f, pred_dict := g\<rparr>) = G_nodes H"
  by (simp add: G_nodes_def)

lemma G_nodes_add_edge:
  "G_nodes (add_edge u v G) =
     (let ns = (if u \<in> set (G_nodes G) then G_nodes G else G_nodes G @ [u])
      in if v \<in> set ns then ns else ns @ [v])"
  by (simp add: add_edge_def Let_def G_nodes_add_node G_nodes_adjacency_update)

lemma set_G_nodes_add_edge:
  "set (G_nodes (add_edge u v G)) = insert u (insert v (set (G_nodes G)))"
  by (auto simp: G_nodes_add_edge Let_def)

lemma distinct_G_nodes_add_edge:
  "distinct (G_nodes G) \<Longrightarrow> distinct (G_nodes (add_edge u v G))"
  by (auto simp: G_nodes_add_edge Let_def)

lemma node_attrs_absent: "n \<notin> set (G_nodes G) \<Longrightarrow> node_attrs G n = Map.empty"
proof -
  assume "n \<notin> set (G_nodes G)"
  then have "map_of (node_dict G) n = None"
    by (simp add: G_nodes_def map_of_eq_None_iff)
  then show ?thesis by (simp add: node_attrs_def)
qed

lemma node_attrs_add_edge: "node_attrs (add_edge u v G) x = node_attrs G x"
proof -
  have 1: "node_attrs (if n \<in> set (G_nodes H) then H else add_node n Map.empty H) x = node_attrs H x"
    for n H
    by (simp add: node_attrs_add_node node_attrs_absent)
  have 2: "node_attrs (H\<lparr>succ_dict := f, pred_dict := g\<rparr>) x = node_attrs H x" for H f g
    by (simp add: node_attrs_def)
  show ?thesis
    unfolding add_edge_def Let_def by (simp only: 1 2)
qed

lemma succ_dict_add_edge:
  "succ_dict (add_edge u v G) = (succ_dict G)(u := add_key v (succ_dict G u))"
  by (simp add: add_edge_def Let_def succ_dict_add_node)

lemma pred_dict_add_edge:
  "pred_dict (add_edge u v G) = (pred_dict G)(v := add_key u (pred_dict G v))"
  by (simp add: add_edge_def Let_def pred_dict_add_node)

lemma edge_rel_add_node: "edge_rel (add_node n a G) = edge_rel G"
  by (simp add: edge_rel_def succ_dict_add_node)

lemma pred_rel_add_node: "pred_rel (add_node n a G) = pred_rel G"
  by (simp add: pred_rel_def pred_dict_add_node)

lemma edge_rel_add_edge: "edge_rel (add_edge u v G) = insert (u, v) (edge_rel G)"
  by (auto simp: edge_rel_def succ_dict_add_edge add_key_def split: if_splits)

lemma pred_rel_add_edge: "pred_rel (add_edge u v G) = insert (u, v) (pred_rel G)"
  by (auto simp: pred_rel_def pred_dict_add_edge add_key_def split: if_splits)

lemma wf_graph_DiGraph: "wf_graph DiGraph"
  by (simp add: wf_graph_def DiGraph_def G_nodes_def)

lemma wf_graph_add_node: "wf_graph G \<Longrightarrow> wf_graph (add_node n a G)"
  by (auto simp: wf_graph_def G_nodes_add_node succ_dict_add_node)

lemma wf_graph_add_edge:
  assumes "wf_graph G"
  shows "wf_graph (add_edge u v G)"
proof -
  have d: "distinct (G_nodes (add_edge u v G))"
    using assms by (simp add: wf_graph_def distinct_G_nodes_add_edge)
  have s: "distinct (succ_dict (add_edge u v G) x)" for x
    using assms by (simp add: wf_graph_def succ_dict_add_edge add_key_def)
  have e: "x \<in> set (G_nodes (add_edge u v G)) \<and> y \<in> set (G_nodes (add_edge u v G))"
    if "y \<in> set (succ_dict (add_edge u v G) x)" for x y
  proof -
    from that have "(x, y) \<in> edge_rel (add_edge u v G)"
      by (simp add: edge_rel_def)
    then have "(x, y) = (u, v) \<or> (x, y) \<in> edge_rel G"
      by (simp only: edge_rel_add_edge insert_iff)
    then have "(x, y) = (u, v) \<or> y \<in> set (succ_dict G x)"
      by (simp add: edge_rel_def)
    then show ?thesis
      using assms by (auto simp: wf_graph_def set_G_nodes_add_edge)
  qed
  show ?thesis
    unfolding wf_graph_def using d s e by blast
qed

lemma set_G_edges:
  "set (G_edges G) = {(u, v). u \<in> set (G_nodes G) \<and> v \<in> set (succ_dict G u)}"
  by (auto simp: G_edges_def)

lemma set_G_edges_wf: "wf_graph G \<Longrightarrow> set (G_edges G) = edge_rel G"
  by (auto simp: set_G_edges edge_rel_def wf_graph_def)



lemma table_sources_Nil: "table_sources [] n = {}"
  by (simp add: table_sources_def)

lemma table_sources_Cons:
  "table_sources (tb # ts) n =
     (case this_sql tb of Inl e \<Rightarrow> {} | Inr s \<Rightarrow> if s \<noteq> n then {s} else {}) \<union> table_sources ts n"
  by (auto simp: table_sources_def split: sum.splits)

lemma trace_tables_edge_rel:
  "trace_tables ts n G = Inr G' \<Longrightarrow>
   edge_rel G' = edge_rel G \<union> (\<lambda>s. (s, n)) ` table_sources ts n"
proof (induction ts arbitrary: G)
  case Nil
  then show ?case by (simp add: table_sources_Nil)
next
  case (Cons tb ts)
  then show ?case
    by (auto simp: table_sources_Cons edge_rel_add_edge split: sum.splits if_splits)
qed

lemma trace_tables_pred_rel:
  "trace_tables ts n G = Inr G' \<Longrightarrow>
   pred_rel G' = pred_rel G \<union> (\<lambda>s. (s, n)) ` table_sources ts n"
proof (induction ts arbitrary: G)
  case Nil
  then show ?case by (simp add: table_sources_Nil)
next
  case (Cons tb ts)
  then show ?case
    by (auto simp: table_sources_Cons pred_rel_add_edge split: sum.splits if_splits)
qed

lemma trace_tables_wf: "trace_tables ts n G = Inr G' \<Longrightarrow> wf_graph G \<Longrightarrow> wf_graph G'"
  by (induction ts arbitrary: G) (auto simp: wf_graph_add_edge split: sum.splits if_splits)

lemma trace_tables_attrs: "trace_tables ts n G = Inr G' \<Longrightarrow> node_attrs G' x = node_attrs G x"
  by (induction ts arbitrary: G) (auto simp: node_attrs_add_edge split: sum.splits if_splits)

lemma trace_tables_nodes:
  "trace_tables ts n G = Inr G' \<Longrightarrow> set (G_nodes G) \<subseteq> set (G_nodes G')"
proof (induction ts arbitrary: G)
  case Nil
  then show ?case by simp
next
  case (Cons tb ts)
  show ?case
  proof (cases "this_sql tb")
    case (Inl e)
    with Cons.prems show ?thesis by simp
  next
    case (Inr s)
    let ?H = "if s \<noteq> n then add_edge s n G else G"
    from Cons.prems Inr have "trace_tables ts n ?H = Inr G'" by simp
    then have "set (G_nodes ?H) \<subseteq> set (G_nodes G')" by (rule Cons.IH)
    moreover have "set (G_nodes G) \<subseteq> set (G_nodes ?H)"
      by (auto simp: set_G_nodes_add_edge)
    ultimately show ?thesis by blast
  qed
qed

lemma build_ctes_edge_rel:
  "build_ctes reg G = Inr G' \<Longrightarrow> edge_rel G' = edge_rel G \<union> cte_edges reg"
proof (induction reg arbitrary: G)
  case Nil
  then show ?case by (simp add: cte_edges_def)
next
  case (Cons p reg)
  obtain a e where p: "p = (a, e)" by (cases p)
  from Cons.prems p obtain H where
    H: "trace_tables (find_all is_Table e) a (add_node a (cte_attrs a) G) = Inr H"
    and rest: "build_ctes reg H = Inr G'"
    by (auto simp: trace_dependencies_def split: sum.splits)
  have "edge_rel H = edge_rel G \<union> scope_edges e a"
    using trace_tables_edge_rel [OF H] by (simp add: edge_rel_add_node scope_edges_def)
  moreover have "edge_rel G' = edge_rel H \<union> cte_edges reg"
    using rest by (rule Cons.IH)
  ultimately show ?case
    by (auto simp: p cte_edges_def)
qed

lemma build_ctes_pred_rel:
  "build_ctes reg G = Inr G' \<Longrightarrow> pred_rel G' = pred_rel G \<union> cte_edges reg"
proof (induction reg arbitrary: G)
  case Nil
  then show ?case by (simp add: cte_edges_def)
next
  case (Cons p reg)
  obtain a e where p: "p = (a, e)" by (cases p)
  from Cons.prems p obtain H where
    H: "trace_tables (find_all is_Table e) a (add_node a (cte_attrs a) G) = Inr H"
    and rest: "build_ctes reg H = Inr G'"
    by (auto simp: trace_dependencies_def split: sum.splits)
  have "pred_rel H = pred_rel G \<union> scope_edges e a"
    using trace_tables_pred_rel [OF H] by (simp add: pred_rel_add_node scope_edges_def)
  moreover have "pred_rel G' = pred_rel H \<union> cte_edges reg"
    using rest by (rule Cons.IH)
  ultimately show ?case
    by (auto simp: p cte_edges_def)
qed

lemma build_ctes_wf: "build_ctes reg G = Inr G' \<Longrightarrow> wf_graph G \<Longrightarrow> wf_graph G'"
proof (induction reg arbitrary: G)
  case Nil
  then show ?case by simp
next
  case (Cons p reg)
  obtain a e where p: "p = (a, e)" by (cases p)
  from Cons.prems p obtain H where
    H: "trace_tables (find_all is_Table e) a (add_node a (cte_attrs a) G) = Inr H"
    and rest: "build_ctes reg H = Inr G'"
    by (auto simp: trace_dependencies_def split: sum.splits)
  have "wf_graph H"
    using trace_tables_wf [OF H] Cons.prems(2) by (simp add: wf_graph_add_node)
  with rest show ?case by (rule Cons.IH)
qed

lemma build_ctes_nodes:
  "build_ctes reg G = Inr G' \<Longrightarrow> set (G_nodes G) \<union> fst ` set reg \<subseteq> set (G_nodes G')"
proof (induction reg arbitrary: G)
  case Nil
  then show ?case by simp
next
  case (Cons p reg)
  obtain a e where p: "p = (a, e)" by (cases p)
  from Cons.prems p obtain H where
    H: "trace_tables (find_all is_Table e) a (add_node a (cte_attrs a) G) = Inr H"
    and rest: "build_ctes reg H = Inr G'"
    by (auto simp: trace_dependencies_def split: sum.splits)
  have "insert a (set (G_nodes G)) \<subseteq> set (G_nodes H)"
    using trace_tables_nodes [OF H] by (auto simp: G_nodes_add_node split: if_splits)
  moreover have "set (G_nodes H) \<union> fst ` set reg \<subseteq> set (G_nodes G')"
    using rest by (rule Cons.IH)
  ultimately show ?case
    by (auto simp: p)
qed

lemma build_ctes_attrs_other:
  "build_ctes reg G = Inr G' \<Longrightarrow> x \<notin> fst ` set reg \<Longrightarrow> node_attrs G' x = node_attrs G x"
proof (induction reg arbitrary: G)
  case Nil
  then show ?case by simp
next
  case (Cons p reg)
  obtain a e where p: "p = (a, e)" by (cases p)
  from Cons.prems p obtain H where
    H: "trace_tables (find_all is_Table e) a (add_node a (cte_attrs a) G) = Inr H"
    and rest: "build_ctes reg H = Inr G'"
    by (auto simp: trace_dependencies_def split: sum.splits)
  from Cons.prems(2) p have xa: "x \<noteq> a" and xr: "x \<notin> fst ` set reg" by auto
  have "node_attrs H x = node_attrs G x"
    using trace_tables_attrs [OF H, of x] xa by (simp add: node_attrs_add_node)
  moreover have "node_attrs G' x = node_attrs H x"
    using rest xr by (rule Cons.IH)
  ultimately show ?case by simp
qed

lemma build_ctes_attrs_alias:
  "build_ctes reg G = Inr G' \<Longrightarrow> distinct (map fst reg) \<Longrightarrow> a \<in> fst ` set reg \<Longrightarrow>
   node_attrs G' a = node_attrs G a ++ cte_attrs a"
proof (induction reg arbitrary: G)
  case Nil
  then show ?case by simp
next
  case (Cons p reg)
  obtain b e where p: "p = (b, e)" by (cases p)
  from Cons.prems p obtain H where
    H: "trace_tables (find_all is_Table e) b (add_node b (cte_attrs b) G) = Inr H"
    and rest: "build_ctes reg H = Inr G'"
    by (auto simp: trace_dependencies_def split: sum.splits)
  from Cons.prems(2) p have d: "distinct (map fst reg)" and b: "b \<notin> fst ` set reg" by auto
  have Hx: "node_attrs H x = (if x = b then node_attrs G b ++ cte_attrs b else node_attrs G x)" for x
    using trace_tables_attrs [OF H, of x] by (simp add: node_attrs_add_node)
  show ?case
  proof (cases "a = b")
    case True
    then have "node_attrs G' a = node_attrs H a"
      using build_ctes_attrs_other [OF rest] b by simp
    with True Hx show ?thesis by simp
  next
    case False
    with Cons.prems(3) p have "a \<in> fst ` set reg" by auto
    with rest d have "node_attrs G' a = node_attrs H a ++ cte_attrs a" by (rule Cons.IH)
    with False Hx show ?thesis by simp
  qed
qed

lemma registry_fold_distinct:
  "distinct (map fst d) \<Longrightarrow>
   distinct (map fst (foldl (\<lambda>d cte. AList.update (cte_alias cte) cte d) d ctes))"
  by (induction ctes arbitrary: d) (simp_all add: distinct_update)

lemma cte_registry_distinct: "distinct (map fst (cte_registry parsed))"
  unfolding cte_registry_def by (rule registry_fold_distinct) simp

lemma edge_rel_DiGraph: "edge_rel DiGraph = {}"
  by (simp add: edge_rel_def DiGraph_def)

lemma pred_rel_DiGraph: "pred_rel DiGraph = {}"
  by (simp add: pred_rel_def DiGraph_def)

lemma node_attrs_DiGraph: "node_attrs DiGraph x = Map.empty"
  by (simp add: node_attrs_def DiGraph_def)

lemma build_target_cases:
  assumes "build_target parsed target_name G = Inr G'"
  obtains (skip) "target_name = None \<or> target_name = Some []" "G' = G"
  | (bare) t where "target_name = Some t" "t \<noteq> []" "find_first is_Select parsed = None"
      "G' = add_node t (target_attrs t) G"
  | (traced) t m where "target_name = Some t" "t \<noteq> []" "find_first is_Select parsed = Some m"
      "trace_tables (find_all is_Table m) t (add_node t (target_attrs t) G) = Inr G'"
  using assms
  by (auto simp: build_target_def Let_def trace_dependencies_def split: option.splits if_splits)

lemma build_target_edge_rel:
  assumes "build_target parsed target_name G = Inr G'"
  shows "edge_rel G' = edge_rel G \<union> target_edges parsed target_name"
  using assms
proof (cases rule: build_target_cases)
  case skip
  then show ?thesis by (auto simp: target_edges_def)
next
  case (bare t)
  then show ?thesis by (simp add: target_edges_def edge_rel_add_node)
next
  case (traced t m)
  then show ?thesis
    using trace_tables_edge_rel [OF traced(4)]
    by (simp add: target_edges_def edge_rel_add_node scope_edges_def)
qed

lemma build_target_pred_rel:
  assumes "build_target parsed target_name G = Inr G'"
  shows "pred_rel G' = pred_rel G \<union> target_edges parsed target_name"
  using assms
proof (cases rule: build_target_cases)
  case skip
  then show ?thesis by (auto simp: target_edges_def)
next
  case (bare t)
  then show ?thesis by (simp add: target_edges_def pred_rel_add_node)
next
  case (traced t m)
  then show ?thesis
    using trace_tables_pred_rel [OF traced(4)]
    by (simp add: target_edges_def pred_rel_add_node scope_edges_def)
qed

lemma build_target_wf:
  assumes "build_target parsed target_name G = Inr G'" and "wf_graph G"
  shows "wf_graph G'"
  using assms(1)
proof (cases rule: build_target_cases)
  case skip
  with assms(2) show ?thesis by simp
next
  case (bare t)
  with assms(2) show ?thesis by (simp add: wf_graph_add_node)
next
  case (traced t m)
  show ?thesis
    using trace_tables_wf [OF traced(4)] assms(2) by (simp add: wf_graph_add_node)
qed

lemma build_target_nodes:
  assumes "build_target parsed target_name G = Inr G'"
  shows "set (G_nodes G) \<subseteq> set (G_nodes G')"
  using assms
proof (cases rule: build_target_cases)
  case skip
  then show ?thesis by simp
next
  case (bare t)
  then show ?thesis by (auto simp: G_nodes_add_node)
next
  case (traced t m)
  show ?thesis
    using trace_tables_nodes [OF traced(4)] by (auto simp: G_nodes_add_node split: if_splits)
qed

lemma build_target_node:
  assumes "build_target parsed (Some t) G = Inr G'" and "t \<noteq> []"
  shows "t \<in> set (G_nodes G')"
  using assms(1)
proof (cases rule: build_target_cases)
  case skip
  with assms(2) show ?thesis by simp
next
  case (bare t')
  then show ?thesis by (auto simp: G_nodes_add_node)
next
  case (traced t' m)
  show ?thesis
    using trace_tables_nodes [OF traced(4)] traced(1)
    by (auto simp: G_nodes_add_node split: if_splits)
qed

lemma build_target_attrs_target:
  assumes "build_target parsed (Some t) G = Inr G'" and "t \<noteq> []"
  shows "node_attrs G' t = node_attrs G t ++ target_attrs t"
  using assms(1)
proof (cases rule: build_target_cases)
  case skip
  with assms(2) show ?thesis by simp
next
  case (bare t')
  then show ?thesis by (simp add: node_attrs_add_node)
next
  case (traced t' m)
  show ?thesis
    using trace_tables_attrs [OF traced(4), of t] traced(1)
    by (simp add: node_attrs_add_node)
qed

lemma build_target_attrs_other:
  assumes "build_target parsed target_name G = Inr G'" and "target_name \<noteq> Some x"
  shows "node_attrs G' x = node_attrs G x"
  using assms(1)
proof (cases rule: build_target_cases)
  case skip
  then show ?thesis by simp
next
  case (bare t)
  with assms(2) show ?thesis by (auto simp: node_attrs_add_node)
next
  case (traced t m)
  show ?thesis
    using trace_tables_attrs [OF traced(4), of x] traced(1) assms(2)
    by (auto simp: node_attrs_add_node)
qed

lemma assemble_cases:
  assumes "assemble parsed target_name = Inr G"
  obtains G1 where "build_ctes (cte_registry parsed) DiGraph = Inr G1"
    and "build_target parsed target_name G1 = Inr G"
  using assms by (auto simp: assemble_def split: sum.splits)

lemma assemble_wf:
  assumes "assemble parsed target_name = Inr G"
  shows "wf_graph G"
proof -
  from assms obtain G1 where 1: "build_ctes (cte_registry parsed) DiGraph = Inr G1"
    and 2: "build_target parsed target_name G1 = Inr G"
    by (rule assemble_cases)
  have "wf_graph G1" using 1 wf_graph_DiGraph by (rule build_ctes_wf)
  with 2 show ?thesis by (rule build_target_wf)
qed

lemma assemble_edge_rel:
  assumes "assemble parsed target_name = Inr G"
  shows "edge_rel G = cte_edges (cte_registry parsed) \<union> target_edges parsed target_name"
proof -
  from assms obtain G1 where 1: "build_ctes (cte_registry parsed) DiGraph = Inr G1"
    and 2: "build_target parsed target_name G1 = Inr G"
    by (rule assemble_cases)
  show ?thesis
    using build_ctes_edge_rel [OF 1] build_target_edge_rel [OF 2]
    by (simp add: edge_rel_DiGraph)
qed

lemma assemble_pred_rel:
  assumes "assemble parsed target_name = Inr G"
  shows "pred_rel G = cte_edges (cte_registry parsed) \<union> target_edges parsed target_name"
proof -
  from assms obtain G1 where 1: "build_ctes (cte_registry parsed) DiGraph = Inr G1"
    and 2: "build_target parsed target_name G1 = Inr G"
    by (rule assemble_cases)
  show ?thesis
    using build_ctes_pred_rel [OF 1] build_target_pred_rel [OF 2]
    by (simp add: pred_rel_DiGraph)
qed

lemma assemble_edges:
  assumes "assemble parsed target_name = Inr G"
  shows "set (G_edges G) = cte_edges (cte_registry parsed) \<union> target_edges parsed target_name"
  using assemble_edge_rel [OF assms] set_G_edges_wf [OF assemble_wf [OF assms]] by simp

lemma assemble_alias_node:
  assumes "assemble parsed target_name = Inr G" and "a \<in> fst ` set (cte_registry parsed)"
  shows "a \<in> set (G_nodes G)"
proof -
  from assms(1) obtain G1 where 1: "build_ctes (cte_registry parsed) DiGraph = Inr G1"
    and 2: "build_target parsed target_name G1 = Inr G"
    by (rule assemble_cases)
  show ?thesis
    using build_ctes_nodes [OF 1] build_target_nodes [OF 2] assms(2) by blast
qed

lemma assemble_alias_attrs:
  assumes "assemble parsed target_name = Inr G" and "a \<in> fst ` set (cte_registry parsed)"
    and "target_name \<noteq> Some a"
  shows "node_attrs G a = cte_attrs a"
proof -
  from assms(1) obtain G1 where 1: "build_ctes (cte_registry parsed) DiGraph = Inr G1"
    and 2: "build_target parsed target_name G1 = Inr G"
    by (rule assemble_cases)
  have "node_attrs G1 a = cte_attrs a"
    using build_ctes_attrs_alias [OF 1 cte_registry_distinct assms(2)]
    by (simp add: node_attrs_DiGraph)
  then show ?thesis
    using build_target_attrs_other [OF 2 assms(3)] by simp
qed

lemma assemble_target_node:
  assumes "assemble parsed (Some t) = Inr G" and "t \<noteq> []"
  shows "t \<in> set (G_nodes G)" and "node_attrs G t ''label'' = Some t"
    and "node_attrs G t ''color'' = Some ''#4dff88''"
proof -
  from assms(1) obtain G1 where 1: "build_ctes (cte_registry parsed) DiGraph = Inr G1"
    and 2: "build_target parsed (Some t) G1 = Inr G"
    by (rule assemble_cases)
  show "t \<in> set (G_nodes G)" using 2 assms(2) by (rule build_target_node)
  have a: "node_attrs G t = node_attrs G1 t ++ target_attrs t"
    using 2 assms(2) by (rule build_target_attrs_target)
  show "node_attrs G t ''label'' = Some t"
    by (simp add: a target_attrs_def)
  show "node_attrs G t ''color'' = Some ''#4dff88''"
    by (simp add: a target_attrs_def)
qed

lemma node_id_format_node: "node_id (format_node G target_name n) = n"
  by (simp add: format_node_def Let_def)

lemma filter_format_nodes:
  assumes "distinct ns" and "a \<in> set ns"
  shows "filter (\<lambda>x. node_id x = a) (map (format_node G t) ns) = [format_node G t a]"
proof -
  have "filter (\<lambda>x. node_id x = a) (map (format_node G t) ns)
        = map (format_node G t) (filter (\<lambda>n. n = a) ns)"
    by (simp add: filter_map comp_def node_id_format_node)
  moreover have "filter (\<lambda>n. n = a) ns = [a]"
    using assms by (induction ns) (auto simp: filter_empty_conv)
  ultimately show ?thesis by simp
qed

lemma in_degree_zero_iff: "in_degree G n = 0 \<longleftrightarrow> (\<forall>u. (u, n) \<notin> pred_rel G)"
  by (auto simp: in_degree_def pred_rel_def)



section \<open>Properties of the program\<close>


lemma lineage_try_cases:
  assumes "lineage_try parse_one sql = Inr r"
  obtains parsed target_name G where "parse_one sql = Inr parsed"
    and "resolve_target parsed = Inr target_name"
    and "assemble parsed target_name = Inr G"
    and "r = format_graph G target_name"
  using assms by (auto simp: lineage_try_def split: sum.splits)

lemma lineage_try_success:
  "parse_one sql = Inr parsed \<Longrightarrow> resolve_target parsed = Inr target_name \<Longrightarrow>
   assemble parsed target_name = Inr G \<Longrightarrow>
   get_production_lineage parse_one sql = format_graph G target_name"
  by (simp add: get_production_lineage_def lineage_try_def)

lemma lineage_result_cases:
  obtains (failed) "get_production_lineage parse_one sql = \<lparr>nodes = [], edges = []\<rparr>"
  | (returned) parsed target_name G where "parse_one sql = Inr parsed"
      and "resolve_target parsed = Inr target_name"
      and "assemble parsed target_name = Inr G"
      and "get_production_lineage parse_one sql = format_graph G target_name"
proof (cases "lineage_try parse_one sql")
  case (Inl e)
  then show ?thesis by (intro failed) (simp add: get_production_lineage_def)
next
  case (Inr r)
  then obtain parsed target_name G where 1: "parse_one sql = Inr parsed"
    and 2: "resolve_target parsed = Inr target_name"
    and 3: "assemble parsed target_name = Inr G"
    by (rule lineage_try_cases)
  from 1 2 3 lineage_try_success [of parse_one sql, OF 1 2 3] show ?thesis
    by (rule returned)
qed

lemma scope_edges_D: "(u, v) \<in> scope_edges e n \<Longrightarrow> v = n \<and> u \<noteq> v"
  by (auto simp: scope_edges_def table_sources_def)

lemma cte_edges_D: "(u, v) \<in> cte_edges reg \<Longrightarrow> v \<in> fst ` set reg \<and> u \<noteq> v"
  by (force simp: cte_edges_def dest: scope_edges_D)

lemma target_edges_D:
  "(u, v) \<in> target_edges parsed target_name \<Longrightarrow> target_name = Some v \<and> u \<noteq> v"
  by (auto simp: target_edges_def dest: scope_edges_D split: option.splits if_splits)

lemma edges_format_graph: "edges (format_graph G t) = map format_edge (G_edges G)"
  by (simp add: format_graph_def)

lemma nodes_format_graph: "nodes (format_graph G t) = map (format_node G t) (G_nodes G)"
  by (simp add: format_graph_def)

lemmas example_trees =
  leaf_def table_def select_from_def cte_def insert_with_def scenario_sql_def scenario_ast_def
  constant_cte_sql_def constant_cte_ast_def self_reference_sql_def self_reference_ast_def
  alias_is_target_sql_def alias_is_target_ast_def values_sql_def values_ast_def
  self_join_sql_def self_join_ast_def inner_write_def outer_write_def nameless_table_ast_def
  selectless_ast_def union_sql_def union_body_def union_ast_def duplicate_alias_sql_def
  duplicate_alias_ast_def example_parser_def

lemmas program_defs =
  get_production_lineage_def lineage_try_def assemble_def build_target_def
  trace_dependencies_def resolve_target_def cte_registry_def find_first_def find_all_def
  walk_def format_graph_def format_node_def format_edge_def get_attr_def G_edges_def
  G_nodes_def in_degree_def add_edge_def add_key_def add_node_def node_attrs_def DiGraph_def
  cte_attrs_def target_attrs_def Let_def

lemma assemble_in_degree:
  assumes "assemble parsed target_name = Inr G"
  shows "in_degree G n = 0 \<longleftrightarrow> n \<notin> snd ` set (G_edges G)"
proof -
  have "pred_rel G = set (G_edges G)"
    using assemble_pred_rel [OF assms] assemble_edges [OF assms] by simp
  then show ?thesis
    by (force simp: in_degree_zero_iff)
qed

lemma edge_to_format_edges: "edge_to ` format_edge ` set es = snd ` set es"
  by (force simp: format_edge_def)



lemma target_loop_append:
  "target_loop (ws @ [w]) t0 =
     (case target_loop ws t0 of Inl e \<Rightarrow> Inl e | Inr t1 \<Rightarrow> target_loop [w] t1)"
  by (induction ws arbitrary: t0) (auto split: option.splits sum.splits)


lemma lineage_try_returns:
  assumes "lineage_try parse_one sql = Inr r" and "parse_one sql = Inr parsed"
    and "resolve_target parsed = Inr target_name"
  obtains G where "assemble parsed target_name = Inr G" and "r = format_graph G target_name"
    and "get_production_lineage parse_one sql = format_graph G target_name"
  using assms by (auto simp: lineage_try_def get_production_lineage_def split: sum.splits)

lemma target_loop_returns:
  assumes "\<forall>w \<in> set ws. \<forall>tb. find_first is_Table w = Some tb \<longrightarrow> (\<exists>m. this_sql tb = Inr m)"
  shows "\<exists>t1. target_loop ws t0 = Inr t1"
  using assms
proof (induction ws arbitrary: t0)
  case Nil
  then show ?case by simp
next
  case (Cons w ws)
  then have rest: "\<exists>t1. target_loop ws t = Inr t1" for t
    by simp
  show ?case
  proof (cases "find_first is_Table w")
    case None
    with rest show ?thesis by simp
  next
    case (Some tb)
    with Cons.prems obtain m where "this_sql tb = Inr m" by auto
    with Some rest show ?thesis by simp
  qed
qed





section \<open>The claims\<close>

text \<open>
  Claim C1. On the statement
  \<^verbatim>\<open>WITH filtered AS (SELECT * FROM orders WHERE amount > 0) INSERT INTO report SELECT * FROM filtered\<close>,
  once the parser has returned its tree, the result has the nodes \<open>filtered\<close> (labelled
  and coloured as a CTE), \<open>orders\<close> (raw source) and \<open>report\<close> (target), and exactly
  the two edges \<open>filtered \<rightarrow> report\<close> and \<open>orders \<rightarrow> filtered\<close>, in the order in which
  the graph container lists them.
\<close>

theorem C1_scenario:
  assumes "parse_one scenario_sql = Inr scenario_ast"
  shows "get_production_lineage parse_one scenario_sql =
    \<lparr>nodes =
       [\<lparr>node_id = ''filtered'', node_label = ''CTE: filtered'', node_color = ''#4da6ff''\<rparr>,
        \<lparr>node_id = ''orders'', node_label = ''RAW: orders'', node_color = ''#ff4d4d''\<rparr>,
        \<lparr>node_id = ''report'', node_label = ''report'', node_color = ''#4dff88''\<rparr>],
     edges =
       [\<lparr>edge_from = ''filtered'', edge_to = ''report''\<rparr>,
        \<lparr>edge_from = ''orders'', edge_to = ''filtered''\<rparr>]\<rparr>"
  using assms by (simp add: program_defs example_trees)

theorem C1_scenario_witness:
  "example_parser scenario_sql = Inr scenario_ast \<and>
   get_production_lineage example_parser scenario_sql =
    \<lparr>nodes =
       [\<lparr>node_id = ''filtered'', node_label = ''CTE: filtered'', node_color = ''#4da6ff''\<rparr>,
        \<lparr>node_id = ''orders'', node_label = ''RAW: orders'', node_color = ''#ff4d4d''\<rparr>,
        \<lparr>node_id = ''report'', node_label = ''report'', node_color = ''#4dff88''\<rparr>],
     edges =
       [\<lparr>edge_from = ''filtered'', edge_to = ''report''\<rparr>,
        \<lparr>edge_from = ''orders'', edge_to = ''filtered''\<rparr>]\<rparr>"
proof -
  have p: "example_parser scenario_sql = Inr scenario_ast"
    by (simp add: example_parser_def)
  from p C1_scenario [of example_parser, OF p] show ?thesis by (rule conjI)
qed

text \<open>
  Claim C2 says that a registered CTE alias other than the target is always labelled as
  a CTE, also when nothing points to it. On \<^verbatim>\<open>WITH c AS (SELECT 1) INSERT INTO t SELECT * FROM c\<close>
  the alias \<open>c\<close> is registered, the target is \<open>t\<close>, and the node \<open>c\<close> comes out
  labelled \<open>RAW: c\<close> in the raw-source colour: the raw-source test looks at the
  in-degree and at the target name only.
\<close>

theorem C2_counterexample:
  "example_parser constant_cte_sql = Inr constant_cte_ast \<and>
   map fst (cte_registry constant_cte_ast) = [''c''] \<and>
   resolve_target constant_cte_ast = Inr (Some ''t'') \<and>
   nodes (get_production_lineage example_parser constant_cte_sql) =
     [\<lparr>node_id = ''c'', node_label = ''RAW: c'', node_color = ''#ff4d4d''\<rparr>,
      \<lparr>node_id = ''t'', node_label = ''t'', node_color = ''#4dff88''\<rparr>]"
  by (simp add: program_defs example_trees)

text \<open>
  Claim C2, amended. When no step raises, a registered CTE alias other than the resolved
  target name appears exactly once in the node list; it is labelled \<open>CTE: <name>\<close> in
  the CTE colour exactly when some returned edge points to it, and \<open>RAW: <name>\<close> in the
  raw-source colour when none does.
\<close>

theorem C2_cte_label_by_in_degree:
  assumes "parse_one sql = Inr parsed"
    and "resolve_target parsed = Inr target_name"
    and "lineage_try parse_one sql = Inr r"
    and "a \<in> fst ` set (cte_registry parsed)"
    and "target_name \<noteq> Some a"
  shows "filter (\<lambda>n. node_id n = a) (nodes (get_production_lineage parse_one sql)) =
     [\<lparr>node_id = a,
       node_label = (if a \<in> edge_to ` set (edges (get_production_lineage parse_one sql))
                     then ''CTE: '' @ a else ''RAW: '' @ a),
       node_color = (if a \<in> edge_to ` set (edges (get_production_lineage parse_one sql))
                     then ''#4da6ff'' else ''#ff4d4d'')\<rparr>]"
proof -
  from assms(3,1,2) obtain G where G: "assemble parsed target_name = Inr G"
    and r: "get_production_lineage parse_one sql = format_graph G target_name"
    by (rule lineage_try_returns)
  have d: "distinct (G_nodes G)"
    using assemble_wf [OF G] by (simp add: wf_graph_def)
  have n: "a \<in> set (G_nodes G)"
    using G assms(4) by (rule assemble_alias_node)
  have attrs: "node_attrs G a = cte_attrs a"
    using G assms(4,5) by (rule assemble_alias_attrs)
  have deg: "in_degree G a = 0 \<longleftrightarrow> a \<notin> edge_to ` set (edges (format_graph G target_name))"
    using assemble_in_degree [OF G, of a]
    by (simp add: edges_format_graph edge_to_format_edges)
  have "filter (\<lambda>n. node_id n = a) (nodes (format_graph G target_name)) = [format_node G target_name a]"
    unfolding nodes_format_graph using d n by (rule filter_format_nodes)
  moreover have "format_node G target_name a =
     \<lparr>node_id = a,
       node_label = (if a \<in> edge_to ` set (edges (format_graph G target_name))
                     then ''CTE: '' @ a else ''RAW: '' @ a),
       node_color = (if a \<in> edge_to ` set (edges (format_graph G target_name))
                     then ''#4da6ff'' else ''#ff4d4d'')\<rparr>"
    using deg assms(5)
    by (auto simp: format_node_def Let_def attrs cte_attrs_def get_attr_def)
  ultimately show ?thesis by (simp add: r)
qed

text \<open>On the scenario statement the alias \<open>filtered\<close> has an incoming edge and is
  labelled as a CTE.\<close>

theorem C2_cte_label_by_in_degree_witness:
  "example_parser scenario_sql = Inr scenario_ast \<and>
   resolve_target scenario_ast = Inr (Some ''report'') \<and>
   ''filtered'' \<in> fst ` set (cte_registry scenario_ast) \<and>
   Some ''report'' \<noteq> Some ''filtered'' \<and>
   filter (\<lambda>n. node_id n = ''filtered'')
     (nodes (get_production_lineage example_parser scenario_sql)) =
     [\<lparr>node_id = ''filtered'', node_label = ''CTE: filtered'', node_color = ''#4da6ff''\<rparr>]"
proof -
  let ?r = "\<lparr>nodes =
       [\<lparr>node_id = ''filtered'', node_label = ''CTE: filtered'', node_color = ''#4da6ff''\<rparr>,
        \<lparr>node_id = ''orders'', node_label = ''RAW: orders'', node_color = ''#ff4d4d''\<rparr>,
        \<lparr>node_id = ''report'', node_label = ''report'', node_color = ''#4dff88''\<rparr>],
     edges =
       [\<lparr>edge_from = ''filtered'', edge_to = ''report''\<rparr>,
        \<lparr>edge_from = ''orders'', edge_to = ''filtered''\<rparr>]\<rparr>"
  have 1: "example_parser scenario_sql = Inr scenario_ast"
    by (simp add: example_parser_def)
  have 2: "resolve_target scenario_ast = Inr (Some ''report'')"
    by (simp add: program_defs example_trees)
  have 3: "lineage_try example_parser scenario_sql = Inr ?r"
    by (simp add: program_defs example_trees)
  have 4: "''filtered'' \<in> fst ` set (cte_registry scenario_ast)"
    by (simp add: program_defs example_trees)
  have 5: "Some ''report'' \<noteq> Some ''filtered''"
    by simp
  have e: "get_production_lineage example_parser scenario_sql = ?r"
    using 3 by (simp add: get_production_lineage_def)
  have "filter (\<lambda>n. node_id n = ''filtered'')
     (nodes (get_production_lineage example_parser scenario_sql)) =
     [\<lparr>node_id = ''filtered'', node_label = ''CTE: filtered'', node_color = ''#4da6ff''\<rparr>]"
    using C2_cte_label_by_in_degree [of example_parser scenario_sql scenario_ast
        "Some ''report''" ?r "''filtered''", OF 1 2 3 4 5]
    by (simp add: e)
  with 1 2 4 5 show ?thesis by blast
qed

text \<open>
  Claim C3. Whatever the parser returns for the text, no edge of the result has the same
  name at both ends.
\<close>

theorem C3_no_self_loop:
  "\<forall>e \<in> set (edges (get_production_lineage parse_one sql)). edge_from e \<noteq> edge_to e"
proof (cases rule: lineage_result_cases [of parse_one sql])
  case failed
  then show ?thesis by simp
next
  case (returned parsed target_name G)
  have "u \<noteq> v" if "(u, v) \<in> set (G_edges G)" for u v
    using that assemble_edges [OF returned(3)] by (auto dest: cte_edges_D target_edges_D)
  then show ?thesis
    by (auto simp: returned(4) edges_format_graph format_edge_def)
qed

text \<open>On the statement whose CTE \<open>a\<close> reads from \<open>a\<close>, the edge \<open>a \<rightarrow> t\<close> is returned,
  and it is not a loop.\<close>

theorem C3_no_self_loop_witness:
  "\<lparr>edge_from = ''a'', edge_to = ''t''\<rparr>
     \<in> set (edges (get_production_lineage example_parser self_reference_sql)) \<and>
   edge_from \<lparr>edge_from = ''a'', edge_to = ''t''\<rparr> \<noteq> edge_to \<lparr>edge_from = ''a'', edge_to = ''t''\<rparr>"
proof -
  let ?e = "\<lparr>edge_from = ''a'', edge_to = ''t''\<rparr>"
  have m: "?e \<in> set (edges (get_production_lineage example_parser self_reference_sql))"
    by (simp add: program_defs example_trees)
  from C3_no_self_loop [of example_parser self_reference_sql] m
  have "edge_from ?e \<noteq> edge_to ?e" by (rule bspec)
  with m show ?thesis by (rule conjI)
qed

text \<open>
  Claim C4. When the parser fails on the text, or when the parser returns a tree and a
  later step raises (resolving the target, or building the graph), the function returns
  the empty result. Its result type holds nothing but a node list and an edge list.
\<close>

theorem C4_failure_gives_empty:
  assumes "(\<exists>e. parse_one sql = Inl e) \<or>
     (\<exists>parsed e. parse_one sql = Inr parsed \<and>
        (resolve_target parsed = Inl e \<or>
         (\<exists>target_name. resolve_target parsed = Inr target_name \<and>
            assemble parsed target_name = Inl e)))"
  shows "get_production_lineage parse_one sql = \<lparr>nodes = [], edges = []\<rparr>"
  using assms by (auto simp: get_production_lineage_def lineage_try_def)

text \<open>The malformed text \<^verbatim>\<open>SELEC * FORM x\<close>, and a tree in which a traced table node has
  no \<^verbatim>\<open>this\<close>.\<close>

theorem C4_failure_gives_empty_witness:
  "example_parser ''SELEC * FORM x'' = Inl ParseError \<and>
   get_production_lineage example_parser ''SELEC * FORM x'' = \<lparr>nodes = [], edges = []\<rparr> \<and>
   example_parser ''nameless table'' = Inr nameless_table_ast \<and>
   resolve_target nameless_table_ast = Inr (Some ''t'') \<and>
   assemble nameless_table_ast (Some ''t'') = Inl AttributeError \<and>
   get_production_lineage example_parser ''nameless table'' = \<lparr>nodes = [], edges = []\<rparr>"
proof -
  have 1: "example_parser ''SELEC * FORM x'' = Inl ParseError"
    by (simp add: example_trees)
  have 2: "example_parser ''nameless table'' = Inr nameless_table_ast"
    by (simp add: example_trees)
  have 3: "resolve_target nameless_table_ast = Inr (Some ''t'')"
    by (simp add: program_defs example_trees)
  have 4: "assemble nameless_table_ast (Some ''t'') = Inl AttributeError"
    by (simp add: program_defs example_trees)
  have a: "get_production_lineage example_parser ''SELEC * FORM x'' = \<lparr>nodes = [], edges = []\<rparr>"
    using 1 by (intro C4_failure_gives_empty [of example_parser "''SELEC * FORM x''"]) blast
  have b: "get_production_lineage example_parser ''nameless table'' = \<lparr>nodes = [], edges = []\<rparr>"
    using 2 3 4 by (intro C4_failure_gives_empty [of example_parser "''nameless table''"]) blast
  from 1 a 2 3 4 b show ?thesis by blast
qed

text \<open>
  Claim C5. When the write statements of the tree are enumerated as \<open>earlier @ [last_write]\<close>,
  the last one contains a table node with a name, and no earlier one raises, the resolved
  target name is the name of the first table node of \<open>last_write\<close>: the last write
  statement wins, and several write statements are not an error.
\<close>

theorem C5_last_write_wins:
  assumes "find_all is_Create_or_Insert parsed = earlier @ [last_write]"
    and "find_first is_Table last_write = Some tb"
    and "this_sql tb = Inr n"
    and "\<forall>w \<in> set earlier. \<forall>tb'. find_first is_Table w = Some tb' \<longrightarrow> (\<exists>m. this_sql tb' = Inr m)"
  shows "resolve_target parsed = Inr (Some n)"
proof -
  from assms(4) obtain t1 where "target_loop earlier None = Inr t1"
    using target_loop_returns [of earlier None] by blast
  with assms(1,2,3) show ?thesis
    by (simp add: resolve_target_def target_loop_append)
qed

text \<open>A create statement around an insert statement: the name comes from the insert
  statement, which is enumerated last.\<close>

theorem C5_last_write_wins_witness:
  "find_all is_Create_or_Insert outer_write = [outer_write] @ [inner_write] \<and>
   find_first is_Table outer_write = Some (table ''staging'') \<and>
   this_sql (table ''staging'') = Inr ''staging'' \<and>
   find_first is_Table inner_write = Some (table ''final'') \<and>
   this_sql (table ''final'') = Inr ''final'' \<and>
   resolve_target outer_write = Inr (Some ''final'')"
proof -
  have 1: "find_all is_Create_or_Insert outer_write = [outer_write] @ [inner_write]"
    by (simp add: program_defs example_trees)
  have 2: "find_first is_Table inner_write = Some (table ''final'')"
    by (simp add: program_defs example_trees)
  have 3: "this_sql (table ''final'') = Inr ''final''"
    by (simp add: example_trees)
  have 5: "find_first is_Table outer_write = Some (table ''staging'')"
    by (simp add: program_defs example_trees)
  have 6: "this_sql (table ''staging'') = Inr ''staging''"
    by (simp add: example_trees)
  have 4: "\<forall>w \<in> set [outer_write]. \<forall>tb'. find_first is_Table w = Some tb' \<longrightarrow>
      (\<exists>m. this_sql tb' = Inr m)"
    using 5 6 by simp
  from 1 5 6 2 3 C5_last_write_wins [OF 1 2 3 4] show ?thesis by blast
qed




text \<open>
  Claim C7. When no step raises and the resolved, non-empty target name is also a
  registered CTE alias, the node list holds exactly one node of that name, with the bare
  name as its label and the target colour.
\<close>

theorem C7_target_precedence:
  assumes "parse_one sql = Inr parsed"
    and "resolve_target parsed = Inr (Some t)"
    and "t \<noteq> []"
    and "t \<in> fst ` set (cte_registry parsed)"
    and "lineage_try parse_one sql = Inr r"
  shows "filter (\<lambda>n. node_id n = t) (nodes (get_production_lineage parse_one sql)) =
     [\<lparr>node_id = t, node_label = t, node_color = ''#4dff88''\<rparr>]"
proof -
  from assms(5,1,2) obtain G where G: "assemble parsed (Some t) = Inr G"
    and r: "get_production_lineage parse_one sql = format_graph G (Some t)"
    by (rule lineage_try_returns)
  have d: "distinct (G_nodes G)"
    using assemble_wf [OF G] by (simp add: wf_graph_def)
  have n: "t \<in> set (G_nodes G)"
    using G assms(3) by (rule assemble_target_node)
  have l: "node_attrs G t ''label'' = Some t"
    using G assms(3) by (rule assemble_target_node)
  have c: "node_attrs G t ''color'' = Some ''#4dff88''"
    using G assms(3) by (rule assemble_target_node)
  have "filter (\<lambda>n. node_id n = t) (nodes (format_graph G (Some t))) = [format_node G (Some t) t]"
    unfolding nodes_format_graph using d n by (rule filter_format_nodes)
  moreover have "format_node G (Some t) t =
      \<lparr>node_id = t, node_label = t, node_color = ''#4dff88''\<rparr>"
    by (simp add: format_node_def get_attr_def l c)
  ultimately show ?thesis by (simp add: r)
qed

text \<open>\<^verbatim>\<open>WITH t AS (SELECT * FROM src) INSERT INTO t SELECT * FROM t\<close>.\<close>

theorem C7_target_precedence_witness:
  "example_parser alias_is_target_sql = Inr alias_is_target_ast \<and>
   resolve_target alias_is_target_ast = Inr (Some ''t'') \<and>
   ''t'' \<in> fst ` set (cte_registry alias_is_target_ast) \<and>
   filter (\<lambda>n. node_id n = ''t'')
     (nodes (get_production_lineage example_parser alias_is_target_sql)) =
     [\<lparr>node_id = ''t'', node_label = ''t'', node_color = ''#4dff88''\<rparr>]"
proof -
  let ?r = "\<lparr>nodes =
       [\<lparr>node_id = ''t'', node_label = ''t'', node_color = ''#4dff88''\<rparr>,
        \<lparr>node_id = ''src'', node_label = ''RAW: src'', node_color = ''#ff4d4d''\<rparr>],
     edges = [\<lparr>edge_from = ''src'', edge_to = ''t''\<rparr>]\<rparr>"
  have 1: "example_parser alias_is_target_sql = Inr alias_is_target_ast"
    by (simp add: example_trees)
  have 2: "resolve_target alias_is_target_ast = Inr (Some ''t'')"
    by (simp add: program_defs example_trees)
  have 3: "''t'' \<noteq> []"
    by simp
  have 4: "''t'' \<in> fst ` set (cte_registry alias_is_target_ast)"
    by (simp add: program_defs example_trees)
  have 5: "lineage_try example_parser alias_is_target_sql = Inr ?r"
    by (simp add: program_defs example_trees)
  from 1 2 4 C7_target_precedence [of example_parser alias_is_target_sql alias_is_target_ast
      "''t''" ?r, OF 1 2 3 4 5]
  show ?thesis by blast
qed



text \<open>
  Claim C9. When the parser returns a tree, every returned edge ends in a registered CTE
  alias or in the resolved target name; a returned node whose name is neither is the end
  of no returned edge, and is labelled as a raw source.
\<close>

theorem C9_edge_destinations:
  assumes "parse_one sql = Inr parsed"
  shows "(\<forall>e \<in> set (edges (get_production_lineage parse_one sql)).
            edge_to e \<in> fst ` set (cte_registry parsed) \<or>
            resolve_target parsed = Inr (Some (edge_to e))) \<and>
         (\<forall>n \<in> set (nodes (get_production_lineage parse_one sql)).
            node_id n \<notin> fst ` set (cte_registry parsed) \<and>
            resolve_target parsed \<noteq> Inr (Some (node_id n)) \<longrightarrow>
            node_id n \<notin> edge_to ` set (edges (get_production_lineage parse_one sql)) \<and>
            node_label n = ''RAW: '' @ node_id n)"
proof (cases rule: lineage_result_cases [of parse_one sql])
  case failed
  then show ?thesis by simp
next
  case (returned parsed' target_name G)
  from returned(1) assms have p: "parsed' = parsed" by simp
  note t = returned(2) [unfolded p] and G = returned(3) [unfolded p] and r = returned(4)
  have dest: "v \<in> fst ` set (cte_registry parsed) \<or> target_name = Some v"
    if "(u, v) \<in> set (G_edges G)" for u v
    using that assemble_edges [OF G] by (auto dest: cte_edges_D target_edges_D)
  have e: "\<forall>e \<in> set (edges (get_production_lineage parse_one sql)).
            edge_to e \<in> fst ` set (cte_registry parsed) \<or>
            resolve_target parsed = Inr (Some (edge_to e))"
  proof (intro ballI)
    fix x
    assume "x \<in> set (edges (get_production_lineage parse_one sql))"
    then obtain u v where uv: "(u, v) \<in> set (G_edges G)" and x: "x = format_edge (u, v)"
      by (auto simp: r edges_format_graph)
    from dest [OF uv] show "edge_to x \<in> fst ` set (cte_registry parsed) \<or>
        resolve_target parsed = Inr (Some (edge_to x))"
      by (simp add: x t format_edge_def)
  qed
  have n: "node_id (format_node G target_name x)
              \<notin> edge_to ` set (edges (get_production_lineage parse_one sql)) \<and>
           node_label (format_node G target_name x) = ''RAW: '' @ node_id (format_node G target_name x)"
    if "x \<notin> fst ` set (cte_registry parsed)" and "target_name \<noteq> Some x" for x
  proof -
    have out: "x \<notin> snd ` set (G_edges G)"
      using dest that by force
    then have "in_degree G x = 0"
      by (simp add: assemble_in_degree [OF G])
    with that(2) have "node_label (format_node G target_name x) = ''RAW: '' @ x"
      by (auto simp: format_node_def)
    with out show ?thesis
      by (simp add: r edges_format_graph edge_to_format_edges node_id_format_node)
  qed
  have "\<forall>n \<in> set (nodes (get_production_lineage parse_one sql)).
            node_id n \<notin> fst ` set (cte_registry parsed) \<and>
            resolve_target parsed \<noteq> Inr (Some (node_id n)) \<longrightarrow>
            node_id n \<notin> edge_to ` set (edges (get_production_lineage parse_one sql)) \<and>
            node_label n = ''RAW: '' @ node_id n"
  proof (intro ballI impI)
    fix m
    assume m: "m \<in> set (nodes (get_production_lineage parse_one sql))"
      and h: "node_id m \<notin> fst ` set (cte_registry parsed) \<and>
              resolve_target parsed \<noteq> Inr (Some (node_id m))"
    from m obtain x where x: "m = format_node G target_name x"
      by (auto simp: r nodes_format_graph)
    from h have "x \<notin> fst ` set (cte_registry parsed)" and "target_name \<noteq> Some x"
      by (auto simp: x node_id_format_node t)
    then show "node_id m \<notin> edge_to ` set (edges (get_production_lineage parse_one sql)) \<and>
       node_label m = ''RAW: '' @ node_id m"
      unfolding x by (rule n)
  qed
  with e show ?thesis by (rule conjI)
qed

text \<open>On the scenario statement: the edge \<open>orders \<rightarrow> filtered\<close> ends in an alias, and
  \<open>orders\<close> is the end of no edge.\<close>

theorem C9_edge_destinations_witness:
  "example_parser scenario_sql = Inr scenario_ast \<and>
   \<lparr>edge_from = ''orders'', edge_to = ''filtered''\<rparr>
     \<in> set (edges (get_production_lineage example_parser scenario_sql)) \<and>
   \<lparr>node_id = ''orders'', node_label = ''RAW: orders'', node_color = ''#ff4d4d''\<rparr>
     \<in> set (nodes (get_production_lineage example_parser scenario_sql)) \<and>
   ''orders'' \<notin> fst ` set (cte_registry scenario_ast) \<and>
   resolve_target scenario_ast \<noteq> Inr (Some ''orders'') \<and>
   ''filtered'' \<in> fst ` set (cte_registry scenario_ast) \<and>
   ''orders'' \<notin> edge_to ` set (edges (get_production_lineage example_parser scenario_sql))"
proof -
  let ?e = "\<lparr>edge_from = ''orders'', edge_to = ''filtered''\<rparr>"
  let ?n = "\<lparr>node_id = ''orders'', node_label = ''RAW: orders'', node_color = ''#ff4d4d''\<rparr>"
  have 1: "example_parser scenario_sql = Inr scenario_ast"
    by (simp add: example_trees)
  have 2: "?e \<in> set (edges (get_production_lineage example_parser scenario_sql))"
    by (simp add: program_defs example_trees)
  have 3: "?n \<in> set (nodes (get_production_lineage example_parser scenario_sql))"
    by (simp add: program_defs example_trees)
  have 4: "''orders'' \<notin> fst ` set (cte_registry scenario_ast)"
    by (simp add: program_defs example_trees)
  have 5: "resolve_target scenario_ast \<noteq> Inr (Some ''orders'')"
    by (simp add: program_defs example_trees)
  note c = C9_edge_destinations [of example_parser scenario_sql scenario_ast, OF 1]
  have t: "resolve_target scenario_ast \<noteq> Inr (Some ''filtered'')"
    by (simp add: program_defs example_trees)
  from c 2 have "edge_to ?e \<in> fst ` set (cte_registry scenario_ast) \<or>
      resolve_target scenario_ast = Inr (Some (edge_to ?e))"
    by blast
  with t have 6: "''filtered'' \<in> fst ` set (cte_registry scenario_ast)"
    by simp
  from c 3 4 5 have 7: "node_id ?n
      \<notin> edge_to ` set (edges (get_production_lineage example_parser scenario_sql))"
    by (elim conjE) (drule bspec [where x = ?n], simp_all)
  from 1 2 3 4 5 6 7 show ?thesis by simp
qed

end
